theory Spec2Isabelle
  imports Complex_Main "HOL-Library.Word" "HOL-Library.Sublist"
begin

section \<open>Data of the DFU object transfer\<close>

text \<open>
  The development embeds two classes of the driver: \<^verbatim>\<open>DfuNotificationQueue\<close>
  (the notification buffer with \<^verbatim>\<open>readNext\<close>) and \<^verbatim>\<open>DfuObjectWriter\<close>
  (\<^verbatim>\<open>writeObject\<close> and its helpers). JavaScript promises are read as sequential
  state passing: a rejected promise is \<open>Inl\<close> of an error, a resolved one \<open>Inr\<close>
  of its value, and a \<^verbatim>\<open>then\<close> chain runs its steps one after the other, skipping
  the rest after a rejection.
\<close>

type_synonym byte = "8 word"

text \<open>A notification as the adapter emits it: \<^verbatim>\<open>_instanceId\<close> and \<^verbatim>\<open>value\<close>.\<close>

record notification =
  instanceId :: string
  nvalue :: "byte list"

text \<open>
  \<^verbatim>\<open>createError(code, message)\<close>: one constructor per \<^verbatim>\<open>ErrorCode\<close> the two classes
  raise, carrying the values the source interpolates into the message.
  \<open>EXTERNAL_FAILURE\<close> stands for a failure raised by a collaborator that is not
  part of the two classes (the packet writer rejecting a write, the chunking
  utility refusing a chunk size).
\<close>

datatype error =
    ABORTED
  | NOTIFICATION_TIMEOUT byte
  | UNEXPECTED_NOTIFICATION "byte option"
  | COMMAND_ERROR byte "byte option"
  | INVALID_OFFSET nat nat
  | INVALID_CRC nat nat
  | EXTERNAL_FAILURE

text \<open>The progress info a packet write may report, and the value \<^verbatim>\<open>writeObject\<close> resolves with.\<close>

record progress =
  offset :: nat
  crc32 :: nat

text \<open>
  Modelled from the spec: the state of \<^verbatim>\<open>DfuPacketWriter\<close> (its class is not among
  the sources). The spec gives it a running offset and CRC32, the PRN cadence
  and an internal cadence counter; \<^verbatim>\<open>_prn\<close> of the object writer is never set by
  its constructor, so the cadence may be undefined (\<open>None\<close>).
\<close>

record packet_writer =
  pw_characteristicId :: string
  pw_offset :: nat
  pw_crc32 :: nat
  pw_prn :: "nat option"
  pw_counter :: nat

text \<open>
  What the two classes take from modules that are not among the sources: the
  constants of \<^verbatim>\<open>dfuConstants\<close>, \<^verbatim>\<open>arrayToInt\<close> of \<^verbatim>\<open>intArrayConv\<close> and the
  \<^verbatim>\<open>writePacket\<close> method of \<^verbatim>\<open>DfuPacketWriter\<close>. They are parameters: every
  theorem below holds for all of their values.
\<close>

record required =
  RESPONSE :: byte
  SUCCESS :: byte
  CALCULATE_CRC :: byte
  arrayToInt :: "byte list \<Rightarrow> nat"
  pw_writePacket :: "packet_writer \<Rightarrow> byte list \<Rightarrow> error + packet_writer \<times> progress option"

text \<open>
  What the environment does while the program is suspended (during one packet
  write, or during one poll interval of \<^verbatim>\<open>readNext\<close>): the notifications the
  adapter emits, and whether the owner calls \<^verbatim>\<open>abort()\<close>.
\<close>

record tick =
  arrived :: "notification list"
  abortCalled :: bool

text \<open>Observable actions, recorded in order (a ghost trace).\<close>

datatype event =
    EvStartListening
  | EvStopListening
  | EvWritePacket packet_writer "byte list"

text \<open>
  The fields of the object writer and of the notification queue it owns,
  together with the adapter's listener registry (how many times the queue's
  callback is registered), the environment's future and the trace.
\<close>

record dfu_state =
  controlPointCharacteristicId :: string
  packetCharacteristicId :: string
  notifications :: "notification list"
  listeners :: nat
  mtuSize :: nat
  prn :: "nat option"
  abort_flag :: bool
  pending :: "tick list"
  events :: "event list"

section \<open>The notification queue\<close>

text \<open>\<^verbatim>\<open>value[i]\<close>: undefined (\<open>None\<close>) beyond the end of the array.\<close>

definition byteAt :: "byte list \<Rightarrow> nat \<Rightarrow> byte option" where
  "byteAt v i = (if i < length v then Some (v ! i) else None)"

text \<open>\<^verbatim>\<open>array.slice(a, b)\<close> (the name \<open>slice\<close> is taken by the word library) for \<open>0 \<le> a \<le> b\<close>: shorter when the array ends early.\<close>

definition jsSlice :: "nat \<Rightarrow> nat \<Rightarrow> 'a list \<Rightarrow> 'a list" where
  "jsSlice a b v = take (b - a) (drop a v)"

text \<open>
  \<^verbatim>\<open>_parseNotification\<close>: \<open>Inr None\<close> is the source's \<^verbatim>\<open>null\<close> (skip it),
  \<open>Inr (Some v)\<close> the returned value, \<open>Inl e\<close> a thrown error.
\<close>

definition parseNotification ::
  "required \<Rightarrow> string \<Rightarrow> byte \<Rightarrow> notification \<Rightarrow> error + byte list option" where
  "parseNotification K cp opCode n =
     (if instanceId n \<noteq> cp then Inr None
      else let v = nvalue n in
        if byteAt v 0 = Some (RESPONSE K) then
          if byteAt v 1 = Some opCode then
            if byteAt v 2 = Some (SUCCESS K) then Inr (Some v)
            else Inl (COMMAND_ERROR opCode (byteAt v 2))
          else Inl (UNEXPECTED_NOTIFICATION (byteAt v 1))
        else Inr None)"

text \<open>
  \<^verbatim>\<open>_findNotification\<close>: shifts notifications off the buffer until one parses to
  a value or throws; returns the outcome and what is left of the buffer.
\<close>

fun findNotification ::
  "required \<Rightarrow> string \<Rightarrow> byte \<Rightarrow> notification list
     \<Rightarrow> (error + byte list option) \<times> notification list" where
  "findNotification K cp opCode [] = (Inr None, [])"
| "findNotification K cp opCode (n # ns) =
     (case parseNotification K cp opCode n of
        Inl e \<Rightarrow> (Inl e, ns)
      | Inr (Some v) \<Rightarrow> (Inr (Some v), ns)
      | Inr None \<Rightarrow> findNotification K cp opCode ns)"

text \<open>
  \<^verbatim>\<open>_onNotificationReceived\<close> pushes each emitted notification once per
  registration of the callback.
\<close>

definition deliver :: "nat \<Rightarrow> notification list \<Rightarrow> notification list" where
  "deliver k ns = concat (map (replicate k) ns)"

text \<open>
  One suspension of the program: the next tick of the environment happens
  (nothing happens once the recorded future is used up).
\<close>

definition suspend :: "dfu_state \<Rightarrow> dfu_state" where
  "suspend s =
     (case pending s of
        [] \<Rightarrow> s
      | t # ts \<Rightarrow>
          s\<lparr>notifications := notifications s @ deliver (listeners s) (arrived t),
            abort_flag := (abort_flag s \<or> abortCalled t),
            pending := ts\<rparr>)"

definition startListening :: "dfu_state \<Rightarrow> dfu_state" where
  "startListening s =
     s\<lparr>listeners := Suc (listeners s), events := events s @ [EvStartListening]\<rparr>"

text \<open>\<^verbatim>\<open>removeListener\<close> removes one registration of the callback, if there is one.\<close>

definition stopListening :: "dfu_state \<Rightarrow> dfu_state" where
  "stopListening s =
     s\<lparr>notifications := [], listeners := listeners s - 1,
       events := events s @ [EvStopListening]\<rparr>"

text \<open>The two constants of \<^verbatim>\<open>readNext\<close>, in milliseconds.\<close>

definition timeout :: nat where
  "timeout = 20000"

definition pollInterval :: nat where
  "pollInterval = 20"

text \<open>
  \<^verbatim>\<open>_waitForNotification\<close>, raced against the timer of \<^verbatim>\<open>readNext\<close>. The first
  argument counts the polls that still fit before the timer fires: each poll
  scans the buffer; a poll that finds nothing is followed by one poll interval
  of suspension; when no poll fits any more, the timer rejects.
\<close>

fun waitForNotification ::
  "nat \<Rightarrow> required \<Rightarrow> byte \<Rightarrow> dfu_state \<Rightarrow> (error + byte list) \<times> dfu_state" where
  "waitForNotification 0 K opCode s = (Inl (NOTIFICATION_TIMEOUT opCode), s)"
| "waitForNotification (Suc polls) K opCode s =
     (case findNotification K (controlPointCharacteristicId s) opCode (notifications s) of
        (Inl e, rest) \<Rightarrow> (Inl e, s\<lparr>notifications := rest\<rparr>)
      | (Inr (Some v), rest) \<Rightarrow> (Inr v, s\<lparr>notifications := rest\<rparr>)
      | (Inr None, rest) \<Rightarrow>
          waitForNotification polls K opCode (suspend (s\<lparr>notifications := rest\<rparr>)))"

text \<open>
  \<^verbatim>\<open>readNext\<close>: the race of \<^verbatim>\<open>_waitForNotification\<close> against the timer. Time is
  counted in poll intervals: the polls run at 0, 20, 40, ... ms and the timer
  fires at 20000 ms, so \<open>timeout div pollInterval\<close> polls run before it (a poll
  due at the very instant of the timer is taken to lose the race). The source
  leaves the poll loop running after the timer has won; such a leftover loop
  of an earlier call is outside this model, which describes one call at a
  time on a queue without one.
\<close>

definition readNext :: "required \<Rightarrow> byte \<Rightarrow> dfu_state \<Rightarrow> (error + byte list) \<times> dfu_state" where
  "readNext K opCode s = waitForNotification (timeout div pollInterval) K opCode s"

section \<open>The object writer\<close>

definition DEFAULT_MTU_SIZE :: nat where
  "DEFAULT_MTU_SIZE = 20"

text \<open>
  The constructor: an empty buffer, no listener registered, the default MTU,
  \<^verbatim>\<open>_prn\<close> left undefined, \<^verbatim>\<open>_abort\<close> false. The future of the environment is
  given with it.
\<close>

definition DfuObjectWriter :: "string \<Rightarrow> string \<Rightarrow> tick list \<Rightarrow> dfu_state" where
  "DfuObjectWriter controlPointId packetId future =
     \<lparr>controlPointCharacteristicId = controlPointId,
      packetCharacteristicId = packetId,
      notifications = [],
      listeners = 0,
      mtuSize = DEFAULT_MTU_SIZE,
      prn = None,
      abort_flag = False,
      pending = future,
      events = []\<rparr>"

definition abort :: "dfu_state \<Rightarrow> dfu_state" where
  "abort s = s\<lparr>abort_flag := True\<rparr>"

definition setPrn :: "nat \<Rightarrow> dfu_state \<Rightarrow> dfu_state" where
  "setPrn n s = s\<lparr>prn := Some n\<rparr>"

definition setMtuSize :: "nat \<Rightarrow> dfu_state \<Rightarrow> dfu_state" where
  "setMtuSize n s = s\<lparr>mtuSize := n\<rparr>"

text \<open>
  Modelled from the spec: \<^verbatim>\<open>splitArray\<close> of \<^verbatim>\<open>util/arrayUtil\<close> (not among the
  sources), the chunking utility that segments the data into ordered packets
  no larger than the chunk size. The spec gives no result for a chunk size of
  0 (no packet of at most 0 bytes can carry a byte): the model returns \<open>None\<close>
  there, read as "the call does not return a packet list".
\<close>

function chunks :: "nat \<Rightarrow> 'a list \<Rightarrow> 'a list list" where
  "chunks n xs = (if n = 0 \<or> xs = [] then [] else take n xs # chunks n (drop n xs))"
  by pat_completeness auto
termination
  by (relation "measure (\<lambda>(n, xs). length xs)") auto

declare chunks.simps [simp del]

definition splitArray :: "'a list \<Rightarrow> nat \<Rightarrow> 'a list list option" where
  "splitArray data chunkSize = (if chunkSize = 0 then None else Some (chunks chunkSize data))"

text \<open>
  Modelled from the spec: the constructor and the setters of \<^verbatim>\<open>DfuPacketWriter\<close>
  (not among the sources). A new writer starts at (0, 0); the setters store
  what they are given.
\<close>

definition new_DfuPacketWriter :: "string \<Rightarrow> packet_writer" where
  "new_DfuPacketWriter packetId =
     \<lparr>pw_characteristicId = packetId, pw_offset = 0, pw_crc32 = 0,
      pw_prn = None, pw_counter = 0\<rparr>"

definition pw_setOffset :: "nat \<Rightarrow> packet_writer \<Rightarrow> packet_writer" where
  "pw_setOffset n w = w\<lparr>pw_offset := n\<rparr>"

definition pw_setCrc32 :: "nat \<Rightarrow> packet_writer \<Rightarrow> packet_writer" where
  "pw_setCrc32 n w = w\<lparr>pw_crc32 := n\<rparr>"

definition pw_setPrn :: "nat option \<Rightarrow> packet_writer \<Rightarrow> packet_writer" where
  "pw_setPrn n w = w\<lparr>pw_prn := n\<rparr>"

text \<open>\<^verbatim>\<open>_createPacketWriter\<close>.\<close>

definition createPacketWriter :: "dfu_state \<Rightarrow> nat \<Rightarrow> nat \<Rightarrow> packet_writer" where
  "createPacketWriter s offs crc =
     pw_setPrn (prn s)
       (pw_setCrc32 crc
         (pw_setOffset offs (new_DfuPacketWriter (packetCharacteristicId s))))"

text \<open>\<^verbatim>\<open>_checkAbortState\<close>.\<close>

definition checkAbortState :: "dfu_state \<Rightarrow> error + unit" where
  "checkAbortState s = (if abort_flag s then Inl ABORTED else Inr ())"

text \<open>\<^verbatim>\<open>_validateOffset\<close> and \<^verbatim>\<open>_validateCrc32\<close>.\<close>

definition validateOffset :: "required \<Rightarrow> byte list \<Rightarrow> nat \<Rightarrow> error + unit" where
  "validateOffset K notification offs =
     (let offsetArray = jsSlice 3 7 notification;
          responseOffset = arrayToInt K offsetArray
      in if responseOffset \<noteq> offs then Inl (INVALID_OFFSET responseOffset offs)
         else Inr ())"

definition validateCrc32 :: "required \<Rightarrow> byte list \<Rightarrow> nat \<Rightarrow> error + unit" where
  "validateCrc32 K notification crc =
     (let crc32Array = jsSlice 7 11 notification;
          responseCrc = arrayToInt K crc32Array
      in if responseCrc \<noteq> crc then Inl (INVALID_CRC responseCrc crc)
         else Inr ())"

text \<open>\<^verbatim>\<open>_validateProgress\<close>: the offset is validated first, then the CRC32.\<close>

definition validateProgress :: "required \<Rightarrow> dfu_state \<Rightarrow> progress \<Rightarrow> (error + unit) \<times> dfu_state" where
  "validateProgress K s progressInfo =
     (case readNext K (CALCULATE_CRC K) s of
        (Inl e, s') \<Rightarrow> (Inl e, s')
      | (Inr notification, s') \<Rightarrow>
          (case validateOffset K notification (offset progressInfo) of
             Inl e \<Rightarrow> (Inl e, s')
           | Inr _ \<Rightarrow>
               (case validateCrc32 K notification (crc32 progressInfo) of
                  Inl e \<Rightarrow> (Inl e, s')
                | Inr _ \<Rightarrow> (Inr (), s'))))"

text \<open>
  \<^verbatim>\<open>_writePacket\<close>: the abort check, then the packet writer's write (recorded in
  the trace, and one suspension long), then the validation of the progress
  info if the write reported one. The packet writer is a mutable object in the
  source; here its state is passed on.
\<close>

definition writePacket ::
  "required \<Rightarrow> dfu_state \<Rightarrow> packet_writer \<Rightarrow> byte list \<Rightarrow> (error + packet_writer) \<times> dfu_state" where
  "writePacket K s packetWriter packet =
     (case checkAbortState s of
        Inl e \<Rightarrow> (Inl e, s)
      | Inr _ \<Rightarrow>
          (let s1 = suspend (s\<lparr>events := events s @ [EvWritePacket packetWriter packet]\<rparr>)
           in case pw_writePacket K packetWriter packet of
                Inl e \<Rightarrow> (Inl e, s1)
              | Inr (packetWriter', None) \<Rightarrow> (Inr packetWriter', s1)
              | Inr (packetWriter', Some progressInfo) \<Rightarrow>
                  (case validateProgress K s1 progressInfo of
                     (Inl e, s2) \<Rightarrow> (Inl e, s2)
                   | (Inr _, s2) \<Rightarrow> (Inr packetWriter', s2))))"

text \<open>
  \<^verbatim>\<open>_writePackets\<close>: the \<^verbatim>\<open>reduce\<close> that chains one \<^verbatim>\<open>_writePacket\<close> per packet
  onto the promise of the packet before it.
\<close>

fun writePackets ::
  "required \<Rightarrow> dfu_state \<Rightarrow> packet_writer \<Rightarrow> byte list list \<Rightarrow> (error + packet_writer) \<times> dfu_state" where
  "writePackets K s packetWriter [] = (Inr packetWriter, s)"
| "writePackets K s packetWriter (packet # packets) =
     (case writePacket K s packetWriter packet of
        (Inl e, s') \<Rightarrow> (Inl e, s')
      | (Inr packetWriter', s') \<Rightarrow> writePackets K s' packetWriter' packets)"

text \<open>
  \<^verbatim>\<open>writeObject\<close>. When the chunking utility does not return, nothing else of the
  method runs.
\<close>

definition writeObject ::
  "required \<Rightarrow> dfu_state \<Rightarrow> byte list \<Rightarrow> nat \<Rightarrow> nat \<Rightarrow> (error + progress) \<times> dfu_state" where
  "writeObject K s data offs crc =
     (case splitArray data (mtuSize s) of
        None \<Rightarrow> (Inl EXTERNAL_FAILURE, s)
      | Some packets \<Rightarrow>
          (let packetWriter = createPacketWriter s offs crc;
               s1 = startListening s
           in case writePackets K s1 packetWriter packets of
                (Inr packetWriter', s2) \<Rightarrow>
                  (Inr \<lparr>offset = pw_offset packetWriter', crc32 = pw_crc32 packetWriter'\<rparr>,
                   stopListening s2)
              | (Inl e, s2) \<Rightarrow> (Inl e, stopListening s2)))"

section \<open>Predicates and reference functions used by the theorems\<close>

text \<open>
  A notification that \<^verbatim>\<open>_parseNotification\<close> skips: it comes from another
  characteristic, or its first byte is not the response marker.
\<close>

definition foreign :: "required \<Rightarrow> string \<Rightarrow> notification \<Rightarrow> bool" where
  "foreign K cp n \<longleftrightarrow> instanceId n \<noteq> cp \<or> byteAt (nvalue n) 0 \<noteq> Some (RESPONSE K)"

text \<open>A successful response to \<open>opCode\<close> on the control point characteristic.\<close>

definition matching :: "required \<Rightarrow> string \<Rightarrow> byte \<Rightarrow> notification \<Rightarrow> bool" where
  "matching K cp opCode n \<longleftrightarrow>
     instanceId n = cp \<and> byteAt (nvalue n) 0 = Some (RESPONSE K) \<and>
     byteAt (nvalue n) 1 = Some opCode \<and> byteAt (nvalue n) 2 = Some (SUCCESS K)"

text \<open>
  Everything the buffer holds at the call together with everything the adapter
  emits during the next \<open>polls\<close> suspensions, in arrival order.
\<close>

definition arrivedWithin :: "nat \<Rightarrow> dfu_state \<Rightarrow> notification list" where
  "arrivedWithin polls s = notifications s @ concat (map arrived (take polls (pending s)))"

text \<open>The packets handed to the packet writer, read off a trace.\<close>

fun isWrite :: "event \<Rightarrow> bool" where
  "isWrite (EvWritePacket w p) = True"
| "isWrite e = False"

fun written :: "event list \<Rightarrow> byte list list" where
  "written [] = []"
| "written (EvWritePacket w p # es) = p # written es"
| "written (e # es) = written es"

text \<open>
  The packet writer on its own: its state after it has written the packets one
  after the other (\<open>None\<close> when it rejects one of them).
\<close>

fun writerAfter :: "required \<Rightarrow> packet_writer \<Rightarrow> byte list list \<Rightarrow> packet_writer option" where
  "writerAfter K w [] = Some w"
| "writerAfter K w (p # ps) =
     (case pw_writePacket K w p of
        Inl e \<Rightarrow> None
      | Inr (w', progressInfo) \<Rightarrow> writerAfter K w' ps)"

section \<open>An instance of the parameters\<close>

text \<open>
  Modelled from the spec: \<^verbatim>\<open>arrayToInt\<close> and \<^verbatim>\<open>DfuPacketWriter.writePacket\<close> (not
  among the sources), as one instance of the parameters. The theorems hold for
  every value of the parameters; this instance serves to run them on concrete
  inputs. The spec leaves the byte order to the protocol; this decoder is
  little-endian. The writer advances its offset by the length of the packet,
  updates its running checksum (a sum of bytes stands in for CRC32) and
  reports the progress when its cadence counter reaches the PRN (never for
  PRN 0 or an undefined PRN). The three constants are those of the Nordic DFU
  control point.
\<close>

definition arrayToInt_le :: "byte list \<Rightarrow> nat" where
  "arrayToInt_le bs = foldr (\<lambda>b n. unat b + 256 * n) bs 0"

definition checksum :: "nat \<Rightarrow> byte list \<Rightarrow> nat" where
  "checksum c p = (c + sum_list (map unat p)) mod 2 ^ 32"

definition exampleWritePacket ::
  "packet_writer \<Rightarrow> byte list \<Rightarrow> error + packet_writer \<times> progress option" where
  "exampleWritePacket w packet =
     (let w1 = w\<lparr>pw_offset := pw_offset w + length packet,
                 pw_crc32 := checksum (pw_crc32 w) packet,
                 pw_counter := Suc (pw_counter w)\<rparr>
      in case pw_prn w of
           None \<Rightarrow> Inr (w1, None)
         | Some n \<Rightarrow>
             if 0 < n \<and> pw_counter w1 = n
             then Inr (w1\<lparr>pw_counter := 0\<rparr>,
                       Some \<lparr>offset = pw_offset w1, crc32 = pw_crc32 w1\<rparr>)
             else Inr (w1, None))"

definition exampleRequired :: required where
  "exampleRequired =
     \<lparr>RESPONSE = 0x60, SUCCESS = 0x01, CALCULATE_CRC = 0x03,
      arrayToInt = arrayToInt_le, pw_writePacket = exampleWritePacket\<rparr>"

text \<open>
  A session for the examples: PRN 1 (every packet is validated), listening
  started; and a tick of the environment in which the device sends a successful
  \<open>CALCULATE_CRC\<close> response with the given offset and CRC32 bytes.
\<close>

definition exampleSession :: "tick list \<Rightarrow> dfu_state" where
  "exampleSession future = startListening (setPrn 1 (DfuObjectWriter ''cp'' ''pkt'' future))"

definition crcResponse :: "byte list \<Rightarrow> byte list \<Rightarrow> tick" where
  "crcResponse offsetBytes crcBytes =
     \<lparr>arrived = [\<lparr>instanceId = ''cp'', nvalue = [0x60, 0x03, 0x01] @ offsetBytes @ crcBytes\<rparr>],
      abortCalled = False\<rparr>"

section \<open>Lemmas on the notification queue\<close>

lemma parse_foreign: "foreign K cp n \<Longrightarrow> parseNotification K cp opCode n = Inr None"
  by (auto simp: foreign_def parseNotification_def)

lemma parse_matching:
  "matching K cp opCode n \<Longrightarrow> parseNotification K cp opCode n = Inr (Some (nvalue n))"
  by (simp add: matching_def parseNotification_def)

lemma find_skip:
  "list_all (foreign K cp) pre \<Longrightarrow>
   findNotification K cp opCode (pre @ rest) = findNotification K cp opCode rest"
  by (induction pre) (simp_all add: parse_foreign)

lemma find_all_foreign:
  "list_all (foreign K cp) ns \<Longrightarrow> findNotification K cp opCode ns = (Inr None, [])"
  using find_skip [of K cp ns opCode "[]"] by simp

lemma find_first_match:
  "list_all (foreign K cp) pre \<Longrightarrow> matching K cp opCode n \<Longrightarrow>
   find (matching K cp opCode) (pre @ n # post) = Some n"
  by (induction pre) (auto simp: foreign_def matching_def)

lemma polls_Suc: "timeout div pollInterval = Suc 999"
  by (simp add: timeout_def pollInterval_def)

lemma readNext_head:
  "readNext K opCode s =
     (case findNotification K (controlPointCharacteristicId s) opCode (notifications s) of
        (Inl e, rest) \<Rightarrow> (Inl e, s\<lparr>notifications := rest\<rparr>)
      | (Inr (Some v), rest) \<Rightarrow> (Inr v, s\<lparr>notifications := rest\<rparr>)
      | (Inr None, rest) \<Rightarrow>
          waitForNotification 999 K opCode (suspend (s\<lparr>notifications := rest\<rparr>)))"
  by (simp only: readNext_def polls_Suc waitForNotification.simps)

lemma deliver_foreign:
  "list_all (foreign K cp) ns \<Longrightarrow> list_all (foreign K cp) (deliver k ns)"
  by (auto simp: deliver_def list_all_iff)

lemma wait_foreign:
  "list_all (foreign K (controlPointCharacteristicId s)) (notifications s) \<Longrightarrow>
   list_all (\<lambda>t. list_all (foreign K (controlPointCharacteristicId s)) (arrived t))
     (take polls (pending s)) \<Longrightarrow>
   fst (waitForNotification polls K opCode s) = Inl (NOTIFICATION_TIMEOUT opCode) \<and>
   pending (snd (waitForNotification polls K opCode s)) = drop polls (pending s)"
proof (induction polls arbitrary: s)
  case 0
  then show ?case by simp
next
  case (Suc polls)
  let ?s1 = "suspend (s\<lparr>notifications := []\<rparr>)"
  have step: "waitForNotification (Suc polls) K opCode s = waitForNotification polls K opCode ?s1"
    using Suc.prems(1) by (simp add: find_all_foreign)
  have cp: "controlPointCharacteristicId ?s1 = controlPointCharacteristicId s"
    by (simp add: suspend_def split: list.split)
  have pd: "pending ?s1 = tl (pending s)"
    by (simp add: suspend_def split: list.split)
  have buf: "list_all (foreign K (controlPointCharacteristicId s)) (notifications ?s1)"
    using Suc.prems(2) by (cases "pending s") (simp_all add: suspend_def deliver_foreign)
  have rest: "list_all (\<lambda>t. list_all (foreign K (controlPointCharacteristicId s)) (arrived t))
     (take polls (pending ?s1))"
    using Suc.prems(2) by (cases "pending s") (simp_all add: pd)
  from Suc.IH [of ?s1] buf rest cp
  show ?case unfolding step by (simp add: pd drop_Suc)
qed

text \<open>Polling changes neither the trace nor the listener registry, and never clears the abort flag.\<close>

lemma suspend_events: "events (suspend s) = events s"
  by (simp add: suspend_def split: list.split)

lemma suspend_listeners: "listeners (suspend s) = listeners s"
  by (simp add: suspend_def split: list.split)

lemma suspend_abort: "abort_flag s \<Longrightarrow> abort_flag (suspend s)"
  by (simp add: suspend_def split: list.split)

lemma wait_events: "events (snd (waitForNotification polls K opCode s)) = events s"
  by (induction polls arbitrary: s)
     (simp_all add: suspend_events split: prod.split sum.split option.split)

lemma wait_listeners: "listeners (snd (waitForNotification polls K opCode s)) = listeners s"
  by (induction polls arbitrary: s)
     (simp_all add: suspend_listeners split: prod.split sum.split option.split)

lemma wait_abort: "abort_flag s \<Longrightarrow> abort_flag (snd (waitForNotification polls K opCode s))"
  by (induction polls arbitrary: s)
     (simp_all add: suspend_abort split: prod.split sum.split option.split)

lemma readNext_events: "events (snd (readNext K opCode s)) = events s"
  by (simp add: readNext_def wait_events)

lemma readNext_listeners: "listeners (snd (readNext K opCode s)) = listeners s"
  by (simp add: readNext_def wait_listeners)

lemma readNext_abort: "abort_flag s \<Longrightarrow> abort_flag (snd (readNext K opCode s))"
  by (simp add: readNext_def wait_abort)

section \<open>Lemmas on the object writer\<close>

lemma validateProgress_snd:
  "snd (validateProgress K s p) = snd (readNext K (CALCULATE_CRC K) s)"
  by (cases "readNext K (CALCULATE_CRC K) s")
     (simp add: validateProgress_def split: sum.split)

lemma validateProgress_events: "events (snd (validateProgress K s p)) = events s"
  by (simp add: validateProgress_snd readNext_events)

lemma validateProgress_listeners: "listeners (snd (validateProgress K s p)) = listeners s"
  by (simp add: validateProgress_snd readNext_listeners)

lemma writePacket_aborted: "abort_flag s \<Longrightarrow> writePacket K s w p = (Inl ABORTED, s)"
  by (simp add: writePacket_def checkAbortState_def)

lemma writePacket_snd:
  "\<not> abort_flag s \<Longrightarrow>
   snd (writePacket K s w p) =
     (let s1 = suspend (s\<lparr>events := events s @ [EvWritePacket w p]\<rparr>)
      in case pw_writePacket K w p of
           Inr (w', Some progressInfo) \<Rightarrow> snd (validateProgress K s1 progressInfo)
         | _ \<Rightarrow> s1)"
proof -
  assume na: "\<not> abort_flag s"
  let ?s1 = "suspend (s\<lparr>events := events s @ [EvWritePacket w p]\<rparr>)"
  show ?thesis
  proof (cases "pw_writePacket K w p")
    case (Inl e)
    with na show ?thesis by (simp add: writePacket_def checkAbortState_def)
  next
    case (Inr r)
    obtain w' po where r: "r = (w', po)" by (cases r)
    show ?thesis
    proof (cases po)
      case None
      with na Inr r show ?thesis by (simp add: writePacket_def checkAbortState_def)
    next
      case (Some progressInfo)
      with na Inr r show ?thesis
        by (cases "validateProgress K ?s1 progressInfo")
           (simp add: writePacket_def checkAbortState_def split: sum.split)
    qed
  qed
qed

lemma writePacket_events:
  "\<not> abort_flag s \<Longrightarrow> events (snd (writePacket K s w p)) = events s @ [EvWritePacket w p]"
  by (simp add: writePacket_snd Let_def validateProgress_events suspend_events
      split: sum.split option.split prod.split)

lemma writePacket_listeners: "listeners (snd (writePacket K s w p)) = listeners s"
  by (cases "abort_flag s")
     (simp_all add: writePacket_aborted writePacket_snd Let_def validateProgress_listeners
        suspend_listeners split: sum.split option.split prod.split)

lemma writePacket_Inr_not_aborted: "fst (writePacket K s w p) = Inr w' \<Longrightarrow> \<not> abort_flag s"
  by (auto simp: writePacket_aborted)

lemma written_append: "written (xs @ ys) = written xs @ written ys"
  by (induction xs rule: written.induct) simp_all

lemma writePackets_trace:
  "\<exists>evs. events (snd (writePackets K s w ps)) = events s @ evs \<and> list_all isWrite evs \<and>
         prefix (written evs) ps \<and>
         (\<forall>w'. fst (writePackets K s w ps) = Inr w' \<longrightarrow> written evs = ps)"
proof (induction ps arbitrary: s w)
  case Nil
  then show ?case by simp
next
  case (Cons p ps)
  obtain r s1 where wp: "writePacket K s w p = (r, s1)"
    by (cases "writePacket K s w p")
  show ?case
  proof (cases r)
    case (Inl e)
    show ?thesis
    proof (cases "abort_flag s")
      case True
      then show ?thesis by (simp add: writePacket_aborted)
    next
      case False
      from writePacket_events [OF False, of K w p] wp
      have "events s1 = events s @ [EvWritePacket w p]" by simp
      with wp Inl show ?thesis by simp
    qed
  next
    case (Inr w1)
    with wp have "\<not> abort_flag s" using writePacket_Inr_not_aborted [of K s w p w1] by simp
    from writePacket_events [OF this, of K w p] wp
    have ev1: "events s1 = events s @ [EvWritePacket w p]" by simp
    from Cons.IH [of s1 w1] obtain evs where
      evs: "events (snd (writePackets K s1 w1 ps)) = events s1 @ evs" "list_all isWrite evs"
        "prefix (written evs) ps"
        "\<forall>w'. fst (writePackets K s1 w1 ps) = Inr w' \<longrightarrow> written evs = ps"
      by blast
    have "events (snd (writePackets K s w (p # ps))) = events s @ (EvWritePacket w p # evs)"
      using wp Inr ev1 evs(1) by simp
    moreover have "list_all isWrite (EvWritePacket w p # evs)" using evs(2) by simp
    moreover have "prefix (written (EvWritePacket w p # evs)) (p # ps)" using evs(3) by simp
    moreover have "\<forall>w'. fst (writePackets K s w (p # ps)) = Inr w' \<longrightarrow>
        written (EvWritePacket w p # evs) = p # ps"
      using wp Inr evs(4) by simp
    ultimately show ?thesis by blast
  qed
qed

lemma writePackets_listeners: "listeners (snd (writePackets K s w ps)) = listeners s"
proof (induction ps arbitrary: s w)
  case Nil
  then show ?case by simp
next
  case (Cons p ps)
  show ?case
    using writePacket_listeners [of K s w p] Cons.IH
    by (cases "writePacket K s w p") (auto split: sum.split)
qed

lemma writePackets_abort: "abort_flag s \<Longrightarrow> abort_flag (snd (writePackets K s w ps))"
  by (cases ps) (simp_all add: writePacket_aborted)

lemma writePackets_append:
  "writePackets K s w (ps @ qs) =
     (case writePackets K s w ps of
        (Inl e, s') \<Rightarrow> (Inl e, s')
      | (Inr w', s') \<Rightarrow> writePackets K s' w' qs)"
  by (induction ps arbitrary: s w) (simp_all split: prod.split sum.split)

section \<open>Lemmas on the chunking\<close>

lemma chunks_step: "0 < n \<Longrightarrow> xs \<noteq> [] \<Longrightarrow> chunks n xs = take n xs # chunks n (drop n xs)"
  by (subst chunks.simps) simp

lemma chunks_Nil: "chunks n [] = []"
  by (subst chunks.simps) simp

lemma chunks_concat: "0 < n \<Longrightarrow> concat (chunks n xs) = xs"
proof (induction n xs rule: chunks.induct)
  case (1 n xs)
  then show ?case by (cases "xs = []") (simp_all add: chunks_Nil chunks_step)
qed

lemma chunks_size: "0 < n \<Longrightarrow> p \<in> set (chunks n xs) \<Longrightarrow> length p \<le> n \<and> p \<noteq> []"
proof (induction n xs rule: chunks.induct)
  case (1 n xs)
  then show ?case by (cases "xs = []") (auto simp: chunks_Nil chunks_step)
qed

lemma ceil_step: "0 < n \<Longrightarrow> 0 < (l::nat) \<Longrightarrow> (l + n - 1) div n = Suc ((l - n + n - 1) div n)"
proof (cases "l \<le> n")
  case True
  assume "0 < n" "0 < l"
  with True have "(l + n - 1) div n = 1"
    by (simp add: div_nat_eqI)
  moreover from True \<open>0 < n\<close> have "(l - n + n - 1) div n = 0" by simp
  ultimately show ?thesis by simp
next
  case False
  assume "0 < n"
  from False have a: "l - n + n - 1 = l - 1" by simp
  from False \<open>0 < n\<close> have b: "l + n - 1 = (l - 1) + n" by simp
  have "((l - 1) + n) div n = Suc ((l - 1) div n)"
    using \<open>0 < n\<close> div_add_self2 [of n "l - 1"] by simp
  with a b show ?thesis by simp
qed

lemma chunks_length: "0 < n \<Longrightarrow> length (chunks n xs) = (length xs + n - 1) div n"
proof (induction n xs rule: chunks.induct)
  case (1 n xs)
  show ?case
  proof (cases "xs = []")
    case True
    with "1.prems" show ?thesis by (simp add: chunks_Nil)
  next
    case False
    with "1.prems" "1.IH" have "length (chunks n (drop n xs)) = (length xs - n + n - 1) div n"
      by simp
    with False "1.prems" ceil_step [of n "length xs"] show ?thesis
      by (simp add: chunks_step)
  qed
qed

lemma ceil_bounds:
  assumes "0 < (n::nat)"
  shows "l \<le> ((l + n - 1) div n) * n \<and> ((l + n - 1) div n) * n < l + n"
proof -
  let ?k = "(l + n - 1) div n"
  have "?k * n \<le> l + n - 1" by simp
  moreover have "l + n - 1 < n + ?k * n" using assms by (rule dividend_less_div_times)
  ultimately show ?thesis using assms by linarith
qed

lemma ceil_div_nat:
  assumes "0 < (n::nat)"
  shows "int ((l + n - 1) div n) = \<lceil>real l / real n\<rceil>"
proof -
  let ?k = "(l + n - 1) div n"
  from ceil_bounds [OF assms, of l] have a: "l \<le> ?k * n" and b: "?k * n < l + n" by simp_all
  from a have "real l \<le> real ?k * real n" by (metis of_nat_le_iff of_nat_mult)
  then have le: "real l / real n \<le> real ?k" using assms by (simp add: pos_divide_le_eq)
  from b have "real ?k * real n < real l + real n" by (metis of_nat_less_iff of_nat_mult of_nat_add)
  then have "(real ?k - 1) * real n < real l" by (simp add: algebra_simps)
  then have lt: "real ?k - 1 < real l / real n" using assms by (simp add: pos_less_divide_eq)
  have "\<lceil>real l / real n\<rceil> = int ?k"
    by (rule ceiling_unique) (use le lt in simp_all)
  then show ?thesis by simp
qed

section \<open>More lemmas on the object writer\<close>

lemma writePacket_checkpoint:
  assumes "\<not> abort_flag s"
    and "pw_writePacket K w p = Inr (w', Some progressInfo)"
  shows "writePacket K s w p =
     (case readNext K (CALCULATE_CRC K) (suspend (s\<lparr>events := events s @ [EvWritePacket w p]\<rparr>)) of
        (Inl e, s2) \<Rightarrow> (Inl e, s2)
      | (Inr v, s2) \<Rightarrow>
          if arrayToInt K (jsSlice 3 7 v) \<noteq> offset progressInfo
          then (Inl (INVALID_OFFSET (arrayToInt K (jsSlice 3 7 v)) (offset progressInfo)), s2)
          else if arrayToInt K (jsSlice 7 11 v) \<noteq> crc32 progressInfo
          then (Inl (INVALID_CRC (arrayToInt K (jsSlice 7 11 v)) (crc32 progressInfo)), s2)
          else (Inr w', s2))"
  using assms
  by (cases "readNext K (CALCULATE_CRC K) (suspend (s\<lparr>events := events s @ [EvWritePacket w p]\<rparr>))")
     (simp add: writePacket_def checkAbortState_def validateProgress_def validateOffset_def
        validateCrc32_def Let_def split: sum.split)

lemma writeObject_trace:
  assumes "splitArray data (mtuSize s) = Some packets"
  shows "\<exists>evs. events (snd (writeObject K s data offs crc))
                  = events s @ [EvStartListening] @ evs @ [EvStopListening] \<and>
               list_all isWrite evs \<and> prefix (written evs) packets \<and>
               (\<forall>r. fst (writeObject K s data offs crc) = Inr r \<longrightarrow> written evs = packets)"
proof -
  let ?s1 = "startListening s"
  let ?w = "createPacketWriter s offs crc"
  obtain r s2 where run: "writePackets K ?s1 ?w packets = (r, s2)"
    by (cases "writePackets K ?s1 ?w packets")
  from writePackets_trace [of K ?s1 ?w packets] run obtain evs where
    evs: "events s2 = events ?s1 @ evs" "list_all isWrite evs" "prefix (written evs) packets"
      "\<forall>w'. r = Inr w' \<longrightarrow> written evs = packets"
    by auto
  have wo: "writeObject K s data offs crc =
      (case r of Inr w' \<Rightarrow> Inr \<lparr>offset = pw_offset w', crc32 = pw_crc32 w'\<rparr> | Inl e \<Rightarrow> Inl e,
       stopListening s2)"
    using assms run by (simp add: writeObject_def split: sum.split)
  have "events (snd (writeObject K s data offs crc))
          = events s @ [EvStartListening] @ evs @ [EvStopListening]"
    using evs(1) by (simp add: wo stopListening_def startListening_def)
  moreover have "\<forall>r'. fst (writeObject K s data offs crc) = Inr r' \<longrightarrow> written evs = packets"
    using evs(4) by (cases r) (simp_all add: wo)
  ultimately show ?thesis using evs(2,3) by blast
qed

lemma writeObject_listeners:
  "splitArray data (mtuSize s) = Some packets \<Longrightarrow>
   listeners (snd (writeObject K s data offs crc)) = listeners s \<and>
   notifications (snd (writeObject K s data offs crc)) = []"
  using writePackets_listeners [of K "startListening s" "createPacketWriter s offs crc" packets]
  by (cases "writePackets K (startListening s) (createPacketWriter s offs crc) packets")
     (simp add: writeObject_def stopListening_def startListening_def split: sum.split)

lemma isWrite_no_listening:
  "list_all isWrite evs \<Longrightarrow> EvStopListening \<notin> set evs \<and> EvStartListening \<notin> set evs"
  by (induction evs) auto

lemma writeObject_abort:
  "abort_flag s \<Longrightarrow> abort_flag (snd (writeObject K s data offs crc))"
proof (cases "splitArray data (mtuSize s)")
  case None
  assume "abort_flag s"
  with None show ?thesis by (simp add: writeObject_def)
next
  case (Some packets)
  assume "abort_flag s"
  then have "abort_flag (startListening s)" by (simp add: startListening_def)
  from writePackets_abort [OF this, of K "createPacketWriter s offs crc" packets] Some
  show ?thesis
    by (cases "writePackets K (startListening s) (createPacketWriter s offs crc) packets")
       (simp add: writeObject_def stopListening_def split: sum.split)
qed

lemma writePacket_Inr:
  "fst (writePacket K s w p) = Inr w' \<Longrightarrow> \<exists>progressInfo. pw_writePacket K w p = Inr (w', progressInfo)"
  by (auto simp: writePacket_def checkAbortState_def Let_def
      split: if_splits sum.splits option.splits prod.splits)

lemma writePackets_writerAfter:
  "fst (writePackets K s w ps) = Inr w' \<Longrightarrow> writerAfter K w ps = Some w'"
proof (induction ps arbitrary: s w)
  case Nil
  then show ?case by simp
next
  case (Cons p ps)
  obtain r s1 where wp: "writePacket K s w p = (r, s1)"
    by (cases "writePacket K s w p")
  with Cons.prems obtain w1 where r: "r = Inr w1" by (cases r) simp_all
  from writePacket_Inr [of K s w p w1] wp r obtain progressInfo where
    "pw_writePacket K w p = Inr (w1, progressInfo)" by auto
  moreover from Cons.prems wp r have "fst (writePackets K s1 w1 ps) = Inr w'" by simp
  from Cons.IH [OF this] have "writerAfter K w1 ps = Some w'" .
  ultimately show ?case by simp
qed

lemma writePackets_first:
  assumes "\<not> abort_flag s"
  shows "\<exists>evs. events (snd (writePackets K s w (p # ps))) = events s @ EvWritePacket w p # evs"
proof -
  obtain r s1 where wp: "writePacket K s w p = (r, s1)"
    by (cases "writePacket K s w p")
  from writePacket_events [OF assms, of K w p] wp
  have ev1: "events s1 = events s @ [EvWritePacket w p]" by simp
  show ?thesis
  proof (cases r)
    case (Inl e)
    with wp ev1 show ?thesis by simp
  next
    case (Inr w1)
    from writePackets_trace [of K s1 w1 ps] obtain evs where
      "events (snd (writePackets K s1 w1 ps)) = events s1 @ evs" by blast
    with wp Inr ev1 show ?thesis by simp
  qed
qed

section \<open>Rules for running the definitions on concrete inputs\<close>

lemmas example_defs =
  exampleSession_def crcResponse_def exampleRequired_def exampleWritePacket_def
  arrayToInt_le_def checksum_def DfuObjectWriter_def DEFAULT_MTU_SIZE_def setPrn_def
  startListening_def createPacketWriter_def new_DfuPacketWriter_def pw_setOffset_def
  pw_setCrc32_def pw_setPrn_def

lemmas run_defs =
  readNext_head suspend_def deliver_def parseNotification_def byteAt_def jsSlice_def

lemmas object_defs =
  writeObject_def splitArray_def chunks_step chunks_Nil writePacket_def checkAbortState_def
  validateProgress_def validateOffset_def validateCrc32_def stopListening_def setMtuSize_def
  abort_def

text \<open>
  Scenarios run on the instance. 45 bytes at MTU 20 are three packets of 20,
  20 and 5 bytes. 40 bytes at MTU 20 with PRN 1: the checkpoint after the
  first packet matches the device's offset 20, the one after the second
  packet does not match the device's 21. An \<^verbatim>\<open>abort()\<close> during the write of the
  first of two packets lets that write finish and stops before the second.
\<close>

lemma scenario_abort_between_packets:
  "fst (writeObject exampleRequired
          (setMtuSize 2 (DfuObjectWriter ''cp'' ''pkt'' [\<lparr>arrived = [], abortCalled = True\<rparr>]))
          [1, 2, 3] 0 0) = Inl ABORTED \<and>
   written (events (snd (writeObject exampleRequired
          (setMtuSize 2 (DfuObjectWriter ''cp'' ''pkt'' [\<lparr>arrived = [], abortCalled = True\<rparr>]))
          [1, 2, 3] 0 0))) = [[1, 2]]"
  by (simp add: example_defs run_defs object_defs)

lemma scenario_45_bytes: "map length (the (splitArray (replicate 45 (0::byte)) 20)) = [20, 20, 5]"
  by (simp add: splitArray_def chunks_step chunks_Nil)

lemma scenario_offset_mismatch: "fst (writeObject exampleRequired (setPrn 1 (DfuObjectWriter ''cp'' ''pkt''
   [crcResponse [20,0,0,0] [20,0,0,0], crcResponse [21,0,0,0] [40,0,0,0]])) (replicate 40 1) 0 0)
  = Inl (INVALID_OFFSET 21 40)"
  by (simp add: example_defs run_defs object_defs sum_list_replicate)

section \<open>readNext: the first matching notification\<close>

text \<open>
  Claim C1, as stated: for every sequence of buffered notifications,
  \<^verbatim>\<open>readNext(opCode)\<close> returns the first notification in arrival order that is a
  successful response to \<open>opCode\<close> on the control point characteristic.

  It fails on a buffer in which a control point response to another operation
  stands before the first matching notification: the scan throws at that
  response. Below, the first matching notification of the buffer is the second
  one, and \<^verbatim>\<open>readNext(3)\<close> rejects with \<open>UNEXPECTED_NOTIFICATION\<close>.
\<close>

theorem readNext_first_match_counterexample:
  "find (matching exampleRequired ''cp'' 3)
     [\<lparr>instanceId = ''cp'', nvalue = [0x60, 4, 1]\<rparr>,
      \<lparr>instanceId = ''cp'', nvalue = [0x60, 3, 1]\<rparr>]
     = Some \<lparr>instanceId = ''cp'', nvalue = [0x60, 3, 1]\<rparr> \<and>
   fst (readNext exampleRequired 3
     ((DfuObjectWriter ''cp'' ''pkt'' [])
        \<lparr>notifications :=
           [\<lparr>instanceId = ''cp'', nvalue = [0x60, 4, 1]\<rparr>,
            \<lparr>instanceId = ''cp'', nvalue = [0x60, 3, 1]\<rparr>]\<rparr>))
     = Inl (UNEXPECTED_NOTIFICATION (Some 4))"
  by (simp add: readNext_head matching_def exampleRequired_def byteAt_def
      DfuObjectWriter_def parseNotification_def)

text \<open>
  Claim C1, amended: when every notification buffered before the first
  matching one is foreign (from another characteristic, or without the
  response marker), \<^verbatim>\<open>readNext(opCode)\<close> returns the value of that first matching
  notification at once; the foreign notifications before it are consumed
  without being returned or raising, and what was buffered after it stays.
\<close>

theorem readNext_returns_first_match:
  assumes "notifications s = pre @ n # post"
    and "list_all (foreign K (controlPointCharacteristicId s)) pre"
    and "matching K (controlPointCharacteristicId s) opCode n"
  shows "find (matching K (controlPointCharacteristicId s) opCode) (notifications s) = Some n \<and>
         readNext K opCode s = (Inr (nvalue n), s\<lparr>notifications := post\<rparr>)"
  using assms by (simp add: readNext_head find_skip parse_matching find_first_match)

theorem readNext_returns_first_match_witness:
  "readNext exampleRequired 3
     ((DfuObjectWriter ''cp'' ''pkt'' [])
        \<lparr>notifications :=
           [\<lparr>instanceId = ''other'', nvalue = [0x60, 4, 1]\<rparr>,
            \<lparr>instanceId = ''cp'', nvalue = [0x07]\<rparr>,
            \<lparr>instanceId = ''cp'', nvalue = [0x60, 3, 1, 20, 0, 0, 0]\<rparr>,
            \<lparr>instanceId = ''cp'', nvalue = [0x60, 3, 1, 40, 0, 0, 0]\<rparr>]\<rparr>)
   = (Inr [0x60, 3, 1, 20, 0, 0, 0],
      (DfuObjectWriter ''cp'' ''pkt'' [])
        \<lparr>notifications := [\<lparr>instanceId = ''cp'', nvalue = [0x60, 3, 1, 40, 0, 0, 0]\<rparr>]\<rparr>)"
  using readNext_returns_first_match [of "(DfuObjectWriter ''cp'' ''pkt'' [])
        \<lparr>notifications :=
           [\<lparr>instanceId = ''other'', nvalue = [0x60, 4, 1]\<rparr>,
            \<lparr>instanceId = ''cp'', nvalue = [0x07]\<rparr>,
            \<lparr>instanceId = ''cp'', nvalue = [0x60, 3, 1, 20, 0, 0, 0]\<rparr>,
            \<lparr>instanceId = ''cp'', nvalue = [0x60, 3, 1, 40, 0, 0, 0]\<rparr>]\<rparr>"
      "[\<lparr>instanceId = ''other'', nvalue = [0x60, 4, 1]\<rparr>,
            \<lparr>instanceId = ''cp'', nvalue = [0x07]\<rparr>]"
      "\<lparr>instanceId = ''cp'', nvalue = [0x60, 3, 1, 20, 0, 0, 0]\<rparr>"
      "[\<lparr>instanceId = ''cp'', nvalue = [0x60, 3, 1, 40, 0, 0, 0]\<rparr>]"
      exampleRequired 3]
  by (simp add: foreign_def matching_def exampleRequired_def byteAt_def DfuObjectWriter_def)

section \<open>readNext: the timeout\<close>

lemma arrivedWithin_foreign:
  "list_all P (arrivedWithin polls s) \<longleftrightarrow>
     list_all P (notifications s) \<and>
     list_all (\<lambda>t. list_all P (arrived t)) (take polls (pending s))"
  by (auto simp: arrivedWithin_def list_all_iff)

text \<open>
  Claim C4, as stated: if no notification that is a successful response to the
  requested opcode on the control point characteristic arrives within the
  20-second ceiling, \<^verbatim>\<open>readNext\<close> fails with \<open>NOTIFICATION_TIMEOUT\<close>.

  It fails when a control point response to another operation is buffered: no
  matching notification ever arrives, and \<^verbatim>\<open>readNext(3)\<close> rejects at its first
  poll with \<open>UNEXPECTED_NOTIFICATION\<close>, not with the timeout.
\<close>

theorem readNext_timeout_counterexample:
  "list_all (\<lambda>n. \<not> matching exampleRequired ''cp'' 3 n)
     (arrivedWithin (timeout div pollInterval)
        ((DfuObjectWriter ''cp'' ''pkt'' [])
           \<lparr>notifications := [\<lparr>instanceId = ''cp'', nvalue = [0x60, 4, 1]\<rparr>]\<rparr>)) \<and>
   fst (readNext exampleRequired 3
     ((DfuObjectWriter ''cp'' ''pkt'' [])
        \<lparr>notifications := [\<lparr>instanceId = ''cp'', nvalue = [0x60, 4, 1]\<rparr>]\<rparr>))
     = Inl (UNEXPECTED_NOTIFICATION (Some 4))"
  by (simp add: readNext_head matching_def exampleRequired_def byteAt_def
      DfuObjectWriter_def parseNotification_def arrivedWithin_def)

text \<open>
  Claim C4, amended: if every notification that is buffered at the call or
  arrives within the ceiling is foreign (from another characteristic, or
  without the response marker), \<^verbatim>\<open>readNext\<close> fails with \<open>NOTIFICATION_TIMEOUT\<close>,
  and only after it has waited through all \<open>timeout div pollInterval\<close> poll
  intervals: however many foreign notifications are discarded meanwhile, none
  of them ends the call earlier.
\<close>

theorem readNext_timeout_only_foreign:
  assumes "list_all (foreign K (controlPointCharacteristicId s))
             (arrivedWithin (timeout div pollInterval) s)"
  shows "fst (readNext K opCode s) = Inl (NOTIFICATION_TIMEOUT opCode) \<and>
         pending (snd (readNext K opCode s)) = drop (timeout div pollInterval) (pending s)"
  using assms wait_foreign [of K s "timeout div pollInterval" opCode]
  by (simp add: arrivedWithin_foreign readNext_def)

theorem readNext_timeout_only_foreign_witness:
  "fst (readNext exampleRequired 3
     ((DfuObjectWriter ''cp'' ''pkt''
         [\<lparr>arrived = [\<lparr>instanceId = ''cp'', nvalue = [0x07, 3, 1]\<rparr>], abortCalled = False\<rparr>,
          \<lparr>arrived = [\<lparr>instanceId = ''other'', nvalue = [0x60, 3, 1]\<rparr>], abortCalled = False\<rparr>])
        \<lparr>notifications := [\<lparr>instanceId = ''other'', nvalue = [0x60, 3, 2]\<rparr>],
          listeners := 1\<rparr>))
   = Inl (NOTIFICATION_TIMEOUT 3)"
  using readNext_timeout_only_foreign [of exampleRequired "(DfuObjectWriter ''cp'' ''pkt''
         [\<lparr>arrived = [\<lparr>instanceId = ''cp'', nvalue = [0x07, 3, 1]\<rparr>], abortCalled = False\<rparr>,
          \<lparr>arrived = [\<lparr>instanceId = ''other'', nvalue = [0x60, 3, 1]\<rparr>], abortCalled = False\<rparr>])
        \<lparr>notifications := [\<lparr>instanceId = ''other'', nvalue = [0x60, 3, 2]\<rparr>],
          listeners := 1\<rparr>" 3]
  by (simp add: foreign_def exampleRequired_def byteAt_def DfuObjectWriter_def arrivedWithin_def
      timeout_def pollInterval_def)

section \<open>readNext: the two hard failures\<close>

text \<open>
  Claim C5: when the scan of the buffer reaches a control point notification
  whose byte 0 is the response marker and whose byte 1 is the requested opcode
  but whose byte 2 is not the success code (everything buffered before it
  being foreign), \<^verbatim>\<open>readNext\<close> fails at once with \<open>COMMAND_ERROR\<close> carrying byte 2;
  the notifications buffered after it are not consumed and no poll interval
  is waited (the rest of the state is unchanged).
\<close>

theorem readNext_command_error:
  assumes "notifications s = pre @ n # post"
    and "list_all (foreign K (controlPointCharacteristicId s)) pre"
    and "instanceId n = controlPointCharacteristicId s"
    and "byteAt (nvalue n) 0 = Some (RESPONSE K)"
    and "byteAt (nvalue n) 1 = Some opCode"
    and "byteAt (nvalue n) 2 \<noteq> Some (SUCCESS K)"
  shows "readNext K opCode s =
           (Inl (COMMAND_ERROR opCode (byteAt (nvalue n) 2)), s\<lparr>notifications := post\<rparr>)"
  using assms by (simp add: readNext_head find_skip parseNotification_def)

theorem readNext_command_error_witness:
  "readNext exampleRequired 3
     ((DfuObjectWriter ''cp'' ''pkt''
         [\<lparr>arrived = [\<lparr>instanceId = ''cp'', nvalue = [0x60, 3, 1]\<rparr>], abortCalled = False\<rparr>])
        \<lparr>notifications :=
           [\<lparr>instanceId = ''other'', nvalue = [0x60, 3, 1]\<rparr>,
            \<lparr>instanceId = ''cp'', nvalue = [0x60, 3, 5]\<rparr>,
            \<lparr>instanceId = ''cp'', nvalue = [0x60, 3, 1]\<rparr>]\<rparr>)
   = (Inl (COMMAND_ERROR 3 (Some 5)),
      (DfuObjectWriter ''cp'' ''pkt''
         [\<lparr>arrived = [\<lparr>instanceId = ''cp'', nvalue = [0x60, 3, 1]\<rparr>], abortCalled = False\<rparr>])
        \<lparr>notifications := [\<lparr>instanceId = ''cp'', nvalue = [0x60, 3, 1]\<rparr>]\<rparr>)"
  using readNext_command_error [of "(DfuObjectWriter ''cp'' ''pkt''
         [\<lparr>arrived = [\<lparr>instanceId = ''cp'', nvalue = [0x60, 3, 1]\<rparr>], abortCalled = False\<rparr>])
        \<lparr>notifications :=
           [\<lparr>instanceId = ''other'', nvalue = [0x60, 3, 1]\<rparr>,
            \<lparr>instanceId = ''cp'', nvalue = [0x60, 3, 5]\<rparr>,
            \<lparr>instanceId = ''cp'', nvalue = [0x60, 3, 1]\<rparr>]\<rparr>"
      "[\<lparr>instanceId = ''other'', nvalue = [0x60, 3, 1]\<rparr>]"
      "\<lparr>instanceId = ''cp'', nvalue = [0x60, 3, 5]\<rparr>"
      "[\<lparr>instanceId = ''cp'', nvalue = [0x60, 3, 1]\<rparr>]"
      exampleRequired 3]
  by (simp add: foreign_def exampleRequired_def byteAt_def DfuObjectWriter_def)

text \<open>
  Claim C6: when the scan of the buffer reaches a control point notification
  whose byte 0 is the response marker but whose byte 1 is not the requested
  opcode (everything buffered before it being foreign), \<^verbatim>\<open>readNext\<close> fails at
  once with \<open>UNEXPECTED_NOTIFICATION\<close>; the notifications buffered after it are
  not consumed and no poll interval is waited.
\<close>

theorem readNext_unexpected_notification:
  assumes "notifications s = pre @ n # post"
    and "list_all (foreign K (controlPointCharacteristicId s)) pre"
    and "instanceId n = controlPointCharacteristicId s"
    and "byteAt (nvalue n) 0 = Some (RESPONSE K)"
    and "byteAt (nvalue n) 1 \<noteq> Some opCode"
  shows "readNext K opCode s =
           (Inl (UNEXPECTED_NOTIFICATION (byteAt (nvalue n) 1)), s\<lparr>notifications := post\<rparr>)"
  using assms by (simp add: readNext_head find_skip parseNotification_def)

theorem readNext_unexpected_notification_witness:
  "readNext exampleRequired 3
     ((DfuObjectWriter ''cp'' ''pkt''
         [\<lparr>arrived = [\<lparr>instanceId = ''cp'', nvalue = [0x60, 3, 1]\<rparr>], abortCalled = False\<rparr>])
        \<lparr>notifications :=
           [\<lparr>instanceId = ''cp'', nvalue = [0x07]\<rparr>,
            \<lparr>instanceId = ''cp'', nvalue = [0x60, 4, 1]\<rparr>,
            \<lparr>instanceId = ''cp'', nvalue = [0x60, 3, 1]\<rparr>]\<rparr>)
   = (Inl (UNEXPECTED_NOTIFICATION (Some 4)),
      (DfuObjectWriter ''cp'' ''pkt''
         [\<lparr>arrived = [\<lparr>instanceId = ''cp'', nvalue = [0x60, 3, 1]\<rparr>], abortCalled = False\<rparr>])
        \<lparr>notifications := [\<lparr>instanceId = ''cp'', nvalue = [0x60, 3, 1]\<rparr>]\<rparr>)"
  using readNext_unexpected_notification [of "(DfuObjectWriter ''cp'' ''pkt''
         [\<lparr>arrived = [\<lparr>instanceId = ''cp'', nvalue = [0x60, 3, 1]\<rparr>], abortCalled = False\<rparr>])
        \<lparr>notifications :=
           [\<lparr>instanceId = ''cp'', nvalue = [0x07]\<rparr>,
            \<lparr>instanceId = ''cp'', nvalue = [0x60, 4, 1]\<rparr>,
            \<lparr>instanceId = ''cp'', nvalue = [0x60, 3, 1]\<rparr>]\<rparr>"
      "[\<lparr>instanceId = ''cp'', nvalue = [0x07]\<rparr>]"
      "\<lparr>instanceId = ''cp'', nvalue = [0x60, 4, 1]\<rparr>"
      "[\<lparr>instanceId = ''cp'', nvalue = [0x60, 3, 1]\<rparr>]"
      exampleRequired 3]
  by (simp add: foreign_def exampleRequired_def byteAt_def DfuObjectWriter_def)

section \<open>writeObject: segmentation and order\<close>

text \<open>
  Claim C2: for data of length L and a configured MTU size M (M at least 1),
  \<^verbatim>\<open>writeObject\<close> segments the data into exactly \<open>\<lceil>L / M\<rceil>\<close> packets, each of at most M
  bytes, whose concatenation in order is the data. The packets handed to the
  packet writer are, in order, a prefix of these packets, and all of them when
  the call resolves. They are handed over strictly one after the other: for
  every split of the packet list, the later packets are written from the state
  and the writer that the earlier packets' writes and validations have left,
  and not at all when one of those failed.
\<close>

theorem writeObject_segments_in_order:
  assumes "0 < mtuSize s"
  shows "\<exists>packets. splitArray data (mtuSize s) = Some packets \<and>
           int (length packets) = \<lceil>real (length data) / real (mtuSize s)\<rceil> \<and>
           (\<forall>p \<in> set packets. length p \<le> mtuSize s) \<and>
           concat packets = data \<and>
           (\<exists>evs. events (snd (writeObject K s data offs crc))
                    = events s @ [EvStartListening] @ evs @ [EvStopListening] \<and>
                  prefix (written evs) packets \<and>
                  (\<forall>r. fst (writeObject K s data offs crc) = Inr r \<longrightarrow> written evs = packets)) \<and>
           (\<forall>ps qs. packets = ps @ qs \<longrightarrow>
              writePackets K (startListening s) (createPacketWriter s offs crc) packets =
                (case writePackets K (startListening s) (createPacketWriter s offs crc) ps of
                   (Inl e, s') \<Rightarrow> (Inl e, s')
                 | (Inr w', s') \<Rightarrow> writePackets K s' w' qs))"
proof -
  let ?packets = "chunks (mtuSize s) data"
  have split: "splitArray data (mtuSize s) = Some ?packets"
    using assms by (simp add: splitArray_def)
  have count: "int (length ?packets) = \<lceil>real (length data) / real (mtuSize s)\<rceil>"
    using assms chunks_length [of "mtuSize s" data] ceil_div_nat [of "mtuSize s" "length data"]
    by simp
  have size: "\<forall>p \<in> set ?packets. length p \<le> mtuSize s"
    using assms chunks_size by blast
  have cat: "concat ?packets = data"
    using assms by (rule chunks_concat)
  from writeObject_trace [OF split, of K offs crc] obtain evs where
    "events (snd (writeObject K s data offs crc))
       = events s @ [EvStartListening] @ evs @ [EvStopListening]"
    "prefix (written evs) ?packets"
    "\<forall>r. fst (writeObject K s data offs crc) = Inr r \<longrightarrow> written evs = ?packets"
    by blast
  then have trace: "\<exists>evs. events (snd (writeObject K s data offs crc))
                    = events s @ [EvStartListening] @ evs @ [EvStopListening] \<and>
                  prefix (written evs) ?packets \<and>
                  (\<forall>r. fst (writeObject K s data offs crc) = Inr r \<longrightarrow> written evs = ?packets)"
    by blast
  have seq: "\<forall>ps qs. ?packets = ps @ qs \<longrightarrow>
              writePackets K (startListening s) (createPacketWriter s offs crc) ?packets =
                (case writePackets K (startListening s) (createPacketWriter s offs crc) ps of
                   (Inl e, s') \<Rightarrow> (Inl e, s')
                 | (Inr w', s') \<Rightarrow> writePackets K s' w' qs)"
    by (simp add: writePackets_append)
  from split count size cat trace seq show ?thesis by blast
qed

theorem writeObject_segments_in_order_witness:
  "splitArray [1, 2, 3, 4, 5 :: byte] 2 = Some [[1, 2], [3, 4], [5]] \<and>
   written (events (snd (writeObject exampleRequired
      (setMtuSize 2 (DfuObjectWriter ''cp'' ''pkt'' [])) [1, 2, 3, 4, 5] 0 0)))
     = [[1, 2], [3, 4], [5]]"
  using writeObject_segments_in_order [of "setMtuSize 2 (DfuObjectWriter ''cp'' ''pkt'' [])" "[1, 2, 3, 4, 5]"
      exampleRequired 0 0]
  by (simp add: example_defs run_defs object_defs)

section \<open>writeObject: validation of a progress checkpoint\<close>

text \<open>
  Claim C3: when the flag is not set and the packet writer reports a progress
  checkpoint for a packet, the object writer reads the next response to
  \<open>CALCULATE_CRC\<close>; a failed read fails the transfer with the read's error;
  otherwise the offset is decoded from bytes [3..7) and the CRC32 from bytes
  [7..11) of the response; a decoded offset other than the expected one fails
  the transfer with \<open>INVALID_OFFSET\<close>, else a decoded CRC32 other than the
  expected one fails it with \<open>INVALID_CRC\<close>, else the remaining packets are
  written. On either failure the final state is the one the read has left: its
  trace ends with the write of this packet, so no further packet is written.
\<close>

theorem writePackets_validates_checkpoint:
  assumes "\<not> abort_flag s"
    and "pw_writePacket K w p = Inr (w', Some progressInfo)"
  shows "writePackets K s w (p # rest) =
     (case readNext K (CALCULATE_CRC K) (suspend (s\<lparr>events := events s @ [EvWritePacket w p]\<rparr>)) of
        (Inl e, s2) \<Rightarrow> (Inl e, s2)
      | (Inr v, s2) \<Rightarrow>
          if arrayToInt K (jsSlice 3 7 v) \<noteq> offset progressInfo
          then (Inl (INVALID_OFFSET (arrayToInt K (jsSlice 3 7 v)) (offset progressInfo)), s2)
          else if arrayToInt K (jsSlice 7 11 v) \<noteq> crc32 progressInfo
          then (Inl (INVALID_CRC (arrayToInt K (jsSlice 7 11 v)) (crc32 progressInfo)), s2)
          else writePackets K s2 w' rest) \<and>
     events (snd (readNext K (CALCULATE_CRC K)
                   (suspend (s\<lparr>events := events s @ [EvWritePacket w p]\<rparr>))))
       = events s @ [EvWritePacket w p]"
proof (intro conjI)
  show "events (snd (readNext K (CALCULATE_CRC K)
                   (suspend (s\<lparr>events := events s @ [EvWritePacket w p]\<rparr>))))
       = events s @ [EvWritePacket w p]"
    by (simp add: readNext_events suspend_events)
next
  show "writePackets K s w (p # rest) =
     (case readNext K (CALCULATE_CRC K) (suspend (s\<lparr>events := events s @ [EvWritePacket w p]\<rparr>)) of
        (Inl e, s2) \<Rightarrow> (Inl e, s2)
      | (Inr v, s2) \<Rightarrow>
          if arrayToInt K (jsSlice 3 7 v) \<noteq> offset progressInfo
          then (Inl (INVALID_OFFSET (arrayToInt K (jsSlice 3 7 v)) (offset progressInfo)), s2)
          else if arrayToInt K (jsSlice 7 11 v) \<noteq> crc32 progressInfo
          then (Inl (INVALID_CRC (arrayToInt K (jsSlice 7 11 v)) (crc32 progressInfo)), s2)
          else writePackets K s2 w' rest)"
    using writePacket_checkpoint [OF assms]
    by (cases "readNext K (CALCULATE_CRC K) (suspend (s\<lparr>events := events s @ [EvWritePacket w p]\<rparr>))")
       (simp split: sum.split)
qed

theorem writePackets_validates_checkpoint_witness:
  "fst (writePackets exampleRequired
          (exampleSession [crcResponse [3, 0, 0, 0] [3, 0, 0, 0]])
          (createPacketWriter (exampleSession []) 0 0)
          [[1, 2], [3, 4]])
     = Inl (INVALID_OFFSET 3 2) \<and>
   written (events (snd (writePackets exampleRequired
          (exampleSession [crcResponse [3, 0, 0, 0] [3, 0, 0, 0]])
          (createPacketWriter (exampleSession []) 0 0)
          [[1, 2], [3, 4]])))
     = [[1, 2]]"
  using writePackets_validates_checkpoint [of "exampleSession [crcResponse [3, 0, 0, 0] [3, 0, 0, 0]]" exampleRequired
      "createPacketWriter (exampleSession []) 0 0" "[1, 2]"
      "\<lparr>pw_characteristicId = ''pkt'', pw_offset = 2, pw_crc32 = 3, pw_prn = Some 1,
        pw_counter = 0\<rparr>"
      "\<lparr>offset = 2, crc32 = 3\<rparr>" "[[3, 4]]"]
  by (simp add: example_defs run_defs)

text \<open>
  Claim C10: when the device's response disagrees with the expected progress
  on both the offset and the CRC32, the validation fails with
  \<open>INVALID_OFFSET\<close> and never with \<open>INVALID_CRC\<close>: the offset is validated first.
\<close>

theorem validateProgress_offset_before_crc:
  assumes "readNext K (CALCULATE_CRC K) s = (Inr v, s')"
    and "arrayToInt K (jsSlice 3 7 v) \<noteq> offset progressInfo"
    and "arrayToInt K (jsSlice 7 11 v) \<noteq> crc32 progressInfo"
  shows "validateProgress K s progressInfo =
           (Inl (INVALID_OFFSET (arrayToInt K (jsSlice 3 7 v)) (offset progressInfo)), s') \<and>
         (\<forall>a b. fst (validateProgress K s progressInfo) \<noteq> Inl (INVALID_CRC a b))"
  using assms by (simp add: validateProgress_def validateOffset_def)

theorem validateProgress_offset_before_crc_witness:
  "validateProgress exampleRequired
     ((exampleSession [])\<lparr>notifications := arrived (crcResponse [3, 0, 0, 0] [9, 0, 0, 0])\<rparr>)
     \<lparr>offset = 2, crc32 = 3\<rparr>
   = (Inl (INVALID_OFFSET 3 2), exampleSession [])"
  using validateProgress_offset_before_crc [of exampleRequired
      "(exampleSession [])\<lparr>notifications := arrived (crcResponse [3, 0, 0, 0] [9, 0, 0, 0])\<rparr>"
      "[0x60, 0x03, 0x01, 3, 0, 0, 0, 9, 0, 0, 0]" "exampleSession []" "\<lparr>offset = 2, crc32 = 3\<rparr>"]
  by (simp add: example_defs run_defs)

section \<open>writeObject: abort\<close>

text \<open>
  Claim C7, as stated: after \<^verbatim>\<open>abort()\<close>, every \<^verbatim>\<open>writeObject\<close> call on the same
  object writer fails with \<open>ABORTED\<close>.

  It fails for empty data: there is no packet, so no packet iteration checks
  the flag, and the call resolves with the offset and CRC32 it was given.
\<close>

theorem writeObject_abort_counterexample:
  "abort_flag (abort (DfuObjectWriter ''cp'' ''pkt'' [])) \<and>
   writeObject exampleRequired (abort (DfuObjectWriter ''cp'' ''pkt'' [])) [] 3 4
     = (Inr \<lparr>offset = 3, crc32 = 4\<rparr>,
        (DfuObjectWriter ''cp'' ''pkt'' [])
          \<lparr>abort_flag := True, events := [EvStartListening, EvStopListening]\<rparr>)"
  by (simp add: example_defs run_defs object_defs)

text \<open>
  Claim C7, amended: the flag is checked at the start of every packet
  iteration, before the packet is handed to the packet writer (with the flag
  set, \<^verbatim>\<open>_writePacket\<close> fails with \<open>ABORTED\<close> and leaves the state as it is). If the
  flag is set when \<^verbatim>\<open>writeObject\<close> is called with non-empty data (and an MTU of
  at least 1), the call fails with \<open>ABORTED\<close> and writes no packet: its trace
  is the start and the stop of the listening only. The flag is never reset:
  it is still set after every \<^verbatim>\<open>writeObject\<close> call, whatever its arguments, so
  every later call with non-empty data fails in the same way.
\<close>

theorem writeObject_after_abort:
  assumes "abort_flag s" and "data \<noteq> []" and "0 < mtuSize s"
  shows "fst (writeObject K s data offs crc) = Inl ABORTED \<and>
         events (snd (writeObject K s data offs crc))
           = events s @ [EvStartListening, EvStopListening] \<and>
         abort_flag (snd (writeObject K s data offs crc)) \<and>
         (\<forall>w p. writePacket K s w p = (Inl ABORTED, s)) \<and>
         (\<forall>data' offs' crc'. abort_flag (snd (writeObject K s data' offs' crc')))"
proof -
  from assms(2,3) have split: "splitArray data (mtuSize s)
      = Some (take (mtuSize s) data # chunks (mtuSize s) (drop (mtuSize s) data))"
    by (simp add: splitArray_def chunks_step)
  from assms(1) have "abort_flag (startListening s)" by (simp add: startListening_def)
  then have run: "writeObject K s data offs crc = (Inl ABORTED, stopListening (startListening s))"
    by (simp add: writeObject_def split writePacket_aborted)
  have "events (stopListening (startListening s)) = events s @ [EvStartListening, EvStopListening]"
    by (simp add: stopListening_def startListening_def)
  moreover have "abort_flag (stopListening (startListening s))"
    using assms(1) by (simp add: stopListening_def startListening_def)
  ultimately show ?thesis
    using run writeObject_abort [OF assms(1)] writePacket_aborted [OF assms(1)] by simp
qed

theorem writeObject_after_abort_witness:
  "writeObject exampleRequired (abort (DfuObjectWriter ''cp'' ''pkt'' [])) [1, 2] 3 4
     = (Inl ABORTED,
        (DfuObjectWriter ''cp'' ''pkt'' [])
          \<lparr>abort_flag := True, events := [EvStartListening, EvStopListening]\<rparr>)"
  using writeObject_after_abort [of "abort (DfuObjectWriter ''cp'' ''pkt'' [])" "[1, 2]" exampleRequired 3 4]
  by (simp add: example_defs run_defs object_defs)

section \<open>writeObject: the listening is stopped once\<close>

text \<open>
  Claim C8: every \<^verbatim>\<open>writeObject\<close> call that starts the queue listening (the
  chunking has returned its packets) stops it exactly once, whether the call
  resolves or fails and whatever the error: the trace of the call is the start
  of the listening, then packet writes only, then the stop, as its last
  action. The listener registry is back at its value before the call and the
  buffer is empty.
\<close>

theorem writeObject_stops_listening_once:
  assumes "splitArray data (mtuSize s) = Some packets"
  shows "\<exists>evs. events (snd (writeObject K s data offs crc))
                  = events s @ [EvStartListening] @ evs @ [EvStopListening] \<and>
               EvStopListening \<notin> set evs \<and> EvStartListening \<notin> set evs \<and>
               listeners (snd (writeObject K s data offs crc)) = listeners s \<and>
               notifications (snd (writeObject K s data offs crc)) = []"
  using writeObject_trace [OF assms, of K offs crc] writeObject_listeners [OF assms, of K offs crc]
    isWrite_no_listening
  by blast

theorem writeObject_stops_listening_once_witness:
  "events (snd (writeObject exampleRequired
      (setPrn 1 (DfuObjectWriter ''cp'' ''pkt'' [crcResponse [9, 0, 0, 0] [3, 0, 0, 0]]))
      [1, 2] 0 0))
     = [EvStartListening,
        EvWritePacket (createPacketWriter (setPrn 1 (DfuObjectWriter ''cp'' ''pkt'' [])) 0 0) [1, 2],
        EvStopListening] \<and>
   fst (writeObject exampleRequired
      (setPrn 1 (DfuObjectWriter ''cp'' ''pkt'' [crcResponse [9, 0, 0, 0] [3, 0, 0, 0]]))
      [1, 2] 0 0)
     = Inl (INVALID_OFFSET 9 2) \<and>
   listeners (snd (writeObject exampleRequired
      (setPrn 1 (DfuObjectWriter ''cp'' ''pkt'' [crcResponse [9, 0, 0, 0] [3, 0, 0, 0]]))
      [1, 2] 0 0)) = 0"
  using writeObject_stops_listening_once [of "[1, 2]"
      "setPrn 1 (DfuObjectWriter ''cp'' ''pkt'' [crcResponse [9, 0, 0, 0] [3, 0, 0, 0]])"
      "[[1, 2]]" exampleRequired 0 0]
  by (simp add: example_defs run_defs object_defs)

section \<open>writeObject: resuming and the reported progress\<close>

text \<open>
  Claim C9: the packet writer that \<^verbatim>\<open>writeObject(data, offset, crc32)\<close> creates
  holds exactly the given offset and CRC32; when a first packet is written
  (non-empty data, flag not set), it is written by the writer in that state;
  and when the call resolves, it resolves with the offset and CRC32 of the
  writer as its writes of all the packets, one after the other from that
  state, have left it.
\<close>

theorem writeObject_resumes_and_reports:
  assumes "0 < mtuSize s"
  shows "pw_offset (createPacketWriter s offs crc) = offs \<and>
         pw_crc32 (createPacketWriter s offs crc) = crc \<and>
         (data \<noteq> [] \<and> \<not> abort_flag s \<longrightarrow>
            (\<exists>evs. events (snd (writeObject K s data offs crc))
                     = events s @ EvStartListening #
                         EvWritePacket (createPacketWriter s offs crc) (take (mtuSize s) data) # evs)) \<and>
         (\<forall>r. fst (writeObject K s data offs crc) = Inr r \<longrightarrow>
            (\<exists>w'. writerAfter K (createPacketWriter s offs crc) (chunks (mtuSize s) data) = Some w' \<and>
                  r = \<lparr>offset = pw_offset w', crc32 = pw_crc32 w'\<rparr>))"
proof (intro conjI impI allI)
  show "pw_offset (createPacketWriter s offs crc) = offs"
    by (simp add: createPacketWriter_def pw_setPrn_def pw_setCrc32_def pw_setOffset_def)
  show "pw_crc32 (createPacketWriter s offs crc) = crc"
    by (simp add: createPacketWriter_def pw_setPrn_def pw_setCrc32_def pw_setOffset_def)
next
  let ?s1 = "startListening s"
  let ?w = "createPacketWriter s offs crc"
  assume "data \<noteq> [] \<and> \<not> abort_flag s"
  then have ne: "data \<noteq> []" and na: "\<not> abort_flag ?s1" by (simp_all add: startListening_def)
  let ?p = "take (mtuSize s) data"
  let ?ps = "chunks (mtuSize s) (drop (mtuSize s) data)"
  from ne assms have split: "splitArray data (mtuSize s) = Some (?p # ?ps)"
    by (simp add: splitArray_def chunks_step)
  from writePackets_first [OF na, of K ?w ?p ?ps] obtain evs where
    evs: "events (snd (writePackets K ?s1 ?w (?p # ?ps))) = events ?s1 @ EvWritePacket ?w ?p # evs"
    by blast
  have "events (snd (writeObject K s data offs crc))
      = events (snd (writePackets K ?s1 ?w (?p # ?ps))) @ [EvStopListening]"
    using split
    by (cases "writePackets K ?s1 ?w (?p # ?ps)")
       (simp add: writeObject_def stopListening_def split: sum.split)
  with evs have "events (snd (writeObject K s data offs crc))
      = events s @ EvStartListening # EvWritePacket ?w ?p # (evs @ [EvStopListening])"
    by (simp add: startListening_def)
  then show "\<exists>evs. events (snd (writeObject K s data offs crc))
                     = events s @ EvStartListening # EvWritePacket ?w ?p # evs"
    by blast
next
  fix r
  let ?s1 = "startListening s"
  let ?w = "createPacketWriter s offs crc"
  let ?ps = "chunks (mtuSize s) data"
  assume ok: "fst (writeObject K s data offs crc) = Inr r"
  from assms have split: "splitArray data (mtuSize s) = Some ?ps"
    by (simp add: splitArray_def)
  obtain q s2 where run: "writePackets K ?s1 ?w ?ps = (q, s2)"
    by (cases "writePackets K ?s1 ?w ?ps")
  with ok split obtain w' where q: "q = Inr w'"
    by (cases q) (simp_all add: writeObject_def)
  with ok split run have r: "r = \<lparr>offset = pw_offset w', crc32 = pw_crc32 w'\<rparr>"
    by (simp add: writeObject_def)
  from writePackets_writerAfter [of K ?s1 ?w ?ps w'] run q
  have "writerAfter K ?w ?ps = Some w'" by simp
  with r show "\<exists>w'. writerAfter K ?w ?ps = Some w' \<and> r = \<lparr>offset = pw_offset w', crc32 = pw_crc32 w'\<rparr>"
    by blast
qed

theorem writeObject_resumes_and_reports_witness:
  "writeObject exampleRequired (setMtuSize 2 (DfuObjectWriter ''cp'' ''pkt'' [])) [1, 2, 3] 20 7
     = (Inr \<lparr>offset = 23, crc32 = 13\<rparr>,
        (setMtuSize 2 (DfuObjectWriter ''cp'' ''pkt'' []))
          \<lparr>events :=
             [EvStartListening,
              EvWritePacket \<lparr>pw_characteristicId = ''pkt'', pw_offset = 20, pw_crc32 = 7,
                             pw_prn = None, pw_counter = 0\<rparr> [1, 2],
              EvWritePacket \<lparr>pw_characteristicId = ''pkt'', pw_offset = 22, pw_crc32 = 10,
                             pw_prn = None, pw_counter = 1\<rparr> [3],
              EvStopListening]\<rparr>)"
  using writeObject_resumes_and_reports [of "setMtuSize 2 (DfuObjectWriter ''cp'' ''pkt'' [])" 20 7 "[1, 2, 3]" exampleRequired]
  by (simp add: example_defs run_defs object_defs)

end
